theory Spec2Isabelle
  imports Main "HOL-Library.Signed_Division" "HOL-Library.AList"
begin

section \<open>JavaScript arithmetic and array reads\<close>

text \<open>
  The numbers of the two controllers (indices, counters, durations in minutes and seconds)
  are integers. JavaScript's \<^verbatim>\<open>a % b\<close> on integers with a non-zero divisor is the
  truncated remainder: it takes the sign of the dividend.
\<close>

definition js_rem :: "int \<Rightarrow> int \<Rightarrow> int" where
  "js_rem a b = a smod b"

text \<open>
  The comparison \<^verbatim>\<open>a % b === 0\<close>. With \<open>b = 0\<close> the remainder is NaN and the comparison
  is false.
\<close>

definition js_rem_is_zero :: "int \<Rightarrow> int \<Rightarrow> bool" where
  "js_rem_is_zero a b = (if b = 0 then False else js_rem a b = 0)"

text \<open>
  The array read \<^verbatim>\<open>xs[i]\<close>: \<open>None\<close> is \<^verbatim>\<open>undefined\<close>, the value of a read outside
  \<open>0 .. length - 1\<close>.
\<close>

definition js_index :: "'a list \<Rightarrow> int \<Rightarrow> 'a option" where
  "js_index xs i = (if 0 \<le> i \<and> i < int (length xs) then Some (xs ! nat i) else None)"

text \<open>
  An event handler either returns or throws a TypeError (a property read on
  \<^verbatim>\<open>undefined\<close>). State updates queued before the throw are still applied, so both
  outcomes carry the state the handler leaves behind.
\<close>

datatype 'a outcome = Returned 'a | Threw 'a

fun state_of :: "'a outcome \<Rightarrow> 'a" where
  "state_of (Returned s) = s"
| "state_of (Threw s) = s"

fun returned :: "'a outcome \<Rightarrow> bool" where
  "returned (Returned s) = True"
| "returned (Threw s) = False"


section \<open>Playback controller (MusicPlayerProvider.tsx)\<close>

text \<open>A \<^verbatim>\<open>File\<close>: its display name and its content, an opaque blob.\<close>

record audio_file =
  fname :: string
  blob :: nat

text \<open>
  The \<^verbatim>\<open>audio\<close> element behind \<^verbatim>\<open>audioRef\<close>. An object URL is identified with the file
  it was created from; \<open>src = None\<close> is the empty source. \<open>paused\<close> is the element's
  play state: \<^verbatim>\<open>play()\<close> clears it, \<^verbatim>\<open>pause()\<close> and \<^verbatim>\<open>load()\<close> set it. The playback
  position is not part of the model.
\<close>

record audio =
  src :: "audio_file option"
  paused :: bool

record player =
  playlist :: "audio_file list"
  currentIndex :: int
  isPlaying :: bool
  fileName :: string
  audioRef :: "audio option"

text \<open>The provider's initial state, once the \<^verbatim>\<open>audio\<close> element is mounted.\<close>

definition initial_player :: player where
  "initial_player =
     \<lparr>playlist = [], currentIndex = 0, isPlaying = False, fileName = [],
      audioRef = Some \<lparr>src = None, paused = True\<rparr>\<rparr>"

definition loadPlaylist :: "audio_file list \<Rightarrow> player \<Rightarrow> player" where
  "loadPlaylist files s =
     (if length files = 0 then s
      else s\<lparr>playlist := files,
             currentIndex := 0,
             fileName := fname (hd files),
             audioRef := map_option (\<lambda>a. a\<lparr>src := Some (hd files), paused := True\<rparr>) (audioRef s),
             isPlaying := False\<rparr>)"

definition playCurrent :: "player \<Rightarrow> player" where
  "playCurrent s =
     (case js_index (playlist s) (currentIndex s) of
        None \<Rightarrow> s
      | Some song \<Rightarrow>
          (case audioRef s of
             None \<Rightarrow> s
           | Some a \<Rightarrow>
               s\<lparr>audioRef := Some (a\<lparr>src := Some song, paused := False\<rparr>),
                 fileName := fname song,
                 isPlaying := True\<rparr>))"

definition pauseMusic :: "player \<Rightarrow> player" where
  "pauseMusic s =
     s\<lparr>audioRef := map_option (\<lambda>a. a\<lparr>paused := True\<rparr>) (audioRef s),
       isPlaying := False\<rparr>"

definition resumeMusic :: "player \<Rightarrow> player" where
  "resumeMusic s =
     s\<lparr>audioRef := map_option (\<lambda>a. a\<lparr>paused := False\<rparr>) (audioRef s),
       isPlaying := True\<rparr>"

definition stopMusic :: "player \<Rightarrow> player" where
  "stopMusic s =
     (case audioRef s of
        None \<Rightarrow> s
      | Some a \<Rightarrow>
          s\<lparr>audioRef := Some (a\<lparr>paused := True, src := None\<rparr>),
            isPlaying := False,
            fileName := [],
            playlist := [],
            currentIndex := 0\<rparr>)"

text \<open>
  The steps \<^verbatim>\<open>nextSong\<close>, \<^verbatim>\<open>prevSong\<close> and \<^verbatim>\<open>onEnd\<close> share once the new index is
  chosen: \<^verbatim>\<open>setCurrentIndex\<close>, then the read of the song, whose \<^verbatim>\<open>.name\<close> throws when
  the index is outside the playlist, then the new source is played.
\<close>

definition play_at :: "int \<Rightarrow> player \<Rightarrow> player outcome" where
  "play_at i s =
     (let s1 = s\<lparr>currentIndex := i\<rparr> in
      case js_index (playlist s) i of
        None \<Rightarrow> Threw s1
      | Some song \<Rightarrow>
          Returned
            (s1\<lparr>fileName := fname song,
                audioRef := map_option (\<lambda>a. a\<lparr>src := Some song, paused := False\<rparr>) (audioRef s),
                isPlaying := True\<rparr>))"

definition nextSong :: "player \<Rightarrow> player outcome" where
  "nextSong s =
     (if length (playlist s) = 0 then Returned s
      else
        let nextIndex = js_rem (currentIndex s + 1) (int (length (playlist s)))
        in play_at nextIndex s)"

definition prevSong :: "player \<Rightarrow> player outcome" where
  "prevSong s =
     (if length (playlist s) = 0 then Returned s
      else
        let prevIndex =
              js_rem (currentIndex s - 1 + int (length (playlist s))) (int (length (playlist s)))
        in play_at prevIndex s)"

text \<open>
  The \<^verbatim>\<open>ended\<close> listener. It is registered only when the \<^verbatim>\<open>audio\<close> element exists, and
  again after every change of \<^verbatim>\<open>currentIndex\<close> or \<^verbatim>\<open>playlist\<close>, so it reads the current
  values. Without an element the event cannot fire and the state stays as it is.
\<close>

definition onEnd :: "player \<Rightarrow> player outcome" where
  "onEnd s =
     (case audioRef s of
        None \<Rightarrow> Returned s
      | Some a \<Rightarrow>
          if length (playlist s) > 0 then
            let nextIndex = currentIndex s + 1 in
            if nextIndex < int (length (playlist s)) then play_at nextIndex s
            else Returned (s\<lparr>isPlaying := False\<rparr>)
          else Returned s)"

text \<open>The transport operations and the automatic advance, as one step function.\<close>

datatype operation =
  LoadPlaylist "audio_file list" | PlayCurrent | Pause | Resume | Stop | Next | Previous | AutoAdvance

fun step :: "operation \<Rightarrow> player \<Rightarrow> player outcome" where
  "step (LoadPlaylist files) s = Returned (loadPlaylist files s)"
| "step PlayCurrent s = Returned (playCurrent s)"
| "step Pause s = Returned (pauseMusic s)"
| "step Resume s = Returned (resumeMusic s)"
| "step Stop s = Returned (stopMusic s)"
| "step Next s = nextSong s"
| "step Previous s = prevSong s"
| "step AutoAdvance s = onEnd s"

text \<open>\<^verbatim>\<open>nextSong\<close> invoked \<open>k\<close> times, each on the state the call before left.\<close>

fun next_times :: "nat \<Rightarrow> player \<Rightarrow> player" where
  "next_times 0 s = s"
| "next_times (Suc k) s = next_times k (state_of (nextSong s))"

text \<open>The data model's invariant: the index is valid whenever the playlist is non-empty.\<close>

definition valid_index :: "player \<Rightarrow> bool" where
  "valid_index s =
     (if playlist s = [] then True
      else 0 \<le> currentIndex s \<and> currentIndex s < int (length (playlist s)))"


section \<open>Pomodoro session controller (the timer page)\<close>

record pomodoroSettings =
  workDuration :: int
  shortBreakDuration :: int
  longBreakDuration :: int
  longBreakInterval :: int

datatype sessionType = Focus | Short_break | Long_break

text \<open>A \<^verbatim>\<open>PomodoroSession\<close>, the record of a completed session.\<close>

record pomodoroSession =
  session_id :: int
  session_date :: string
  session_type :: sessionType
  session_duration :: int
  session_taskId :: "string option"
  session_taskTitle :: string

record task =
  task_id :: string
  task_title :: string

text \<open>What the page does to the world outside its own state, in the order it happens.\<close>

datatype effect = ClearInterval nat | SetInterval nat | Tone | Alert string

text \<open>
  The page's state: the values held by \<^verbatim>\<open>useState\<close>, the two refs (\<open>timerRef\<close> is the
  handle of the last interval, \<open>audioContextRef\<close> says whether an audio context exists),
  the \<^verbatim>\<open>pomodoroHistory\<close> item of the local storage, and the trace of effects.
\<close>

record pomodoro =
  timeLeft :: int
  isRunning :: bool
  isBreak :: bool
  isLongBreak :: bool
  selectedTaskId :: "string option"
  tasks :: "task list"
  history :: "pomodoroSession list"
  sessionCount :: int
  settings :: pomodoroSettings
  timerRef :: "nat option"
  audioContextRef :: bool
  localStorage :: "pomodoroSession list option"
  effects :: "effect list"

definition default_settings :: pomodoroSettings where
  "default_settings =
     \<lparr>workDuration = 25, shortBreakDuration = 5, longBreakDuration = 15, longBreakInterval = 4\<rparr>"

definition initial_pomodoro :: pomodoro where
  "initial_pomodoro =
     \<lparr>timeLeft = 25 * 60, isRunning = False, isBreak = False, isLongBreak = False,
      selectedTaskId = None, tasks = [], history = [], sessionCount = 0,
      settings = default_settings, timerRef = None, audioContextRef = True,
      localStorage = None, effects = []\<rparr>"

text \<open>
  The mode the page shows and records:
  \<^verbatim>\<open>isBreak ? (isLongBreak ? 'long_break' : 'short_break') : 'focus'\<close>.
\<close>

definition mode :: "pomodoro \<Rightarrow> sessionType" where
  "mode s = (if isBreak s then (if isLongBreak s then Long_break else Short_break) else Focus)"

text \<open>The full duration of a mode in seconds, as \<^verbatim>\<open>resetTimer\<close> computes it.\<close>

definition mode_seconds :: "pomodoroSettings \<Rightarrow> sessionType \<Rightarrow> int" where
  "mode_seconds st m =
     (case m of
        Focus \<Rightarrow> workDuration st * 60
      | Short_break \<Rightarrow> shortBreakDuration st * 60
      | Long_break \<Rightarrow> longBreakDuration st * 60)"

text \<open>
  Settings updates. Both read \<^verbatim>\<open>isRunningRef.current\<close>, which mirrors \<open>isRunning\<close>.
  \<open>fetchSettings\<close> takes the \<^verbatim>\<open>pomodoroSettings\<close> of the response; \<open>None\<close> is a failed
  request, a response that is not ok, or one without that field.
\<close>

definition handleSettingsChange :: "pomodoroSettings \<Rightarrow> pomodoro \<Rightarrow> pomodoro" where
  "handleSettingsChange detail s =
     (let s1 = s\<lparr>settings := detail\<rparr> in
      if \<not> isRunning s then s1\<lparr>timeLeft := workDuration detail * 60\<rparr> else s1)"

definition fetchSettings :: "pomodoroSettings option \<Rightarrow> pomodoro \<Rightarrow> pomodoro" where
  "fetchSettings response s =
     (case response of
        None \<Rightarrow> s
      | Some st \<Rightarrow>
          (let s1 = s\<lparr>settings := st\<rparr> in
           if \<not> isRunning s then s1\<lparr>timeLeft := workDuration st * 60\<rparr> else s1))"

text \<open>
  The handlers below are closures of one render. A handler reads the state values of the
  render that created it (its first argument \<open>c\<close>, constants for the handler's whole run)
  and queues updates, which are applied to the state \<open>s\<close>. Refs are read from \<open>s\<close>. A
  button's handler always belongs to the current render: see \<open>click\<close>.
\<close>

definition startTimer :: "nat \<Rightarrow> pomodoro \<Rightarrow> pomodoro" where
  "startTimer h s =
     s\<lparr>isRunning := True, timerRef := Some h, effects := effects s @ [SetInterval h]\<rparr>"

definition pauseTimer :: "pomodoro \<Rightarrow> pomodoro" where
  "pauseTimer s =
     (let s1 = s\<lparr>isRunning := False\<rparr> in
      case timerRef s of
        None \<Rightarrow> s1
      | Some h \<Rightarrow> s1\<lparr>effects := effects s1 @ [ClearInterval h]\<rparr>)"

definition playNotificationSound :: "pomodoro \<Rightarrow> pomodoro" where
  "playNotificationSound s =
     (if \<not> audioContextRef s then s else s\<lparr>effects := effects s @ [Tone]\<rparr>)"

definition resetTimer :: "pomodoro \<Rightarrow> pomodoro \<Rightarrow> pomodoro" where
  "resetTimer c s =
     (let s1 = pauseTimer s;
          newTime =
            (if isBreak c
             then (if isLongBreak c then longBreakDuration (settings c)
                   else shortBreakDuration (settings c)) * 60
             else workDuration (settings c) * 60)
      in s1\<lparr>timeLeft := newTime\<rparr>)"

definition switchSession :: "pomodoro \<Rightarrow> pomodoro \<Rightarrow> pomodoro" where
  "switchSession c s =
     (let wasBreak = isBreak c;
          s1 = s\<lparr>isBreak := \<not> wasBreak\<rparr>
      in if wasBreak
         then s1\<lparr>isLongBreak := False, timeLeft := workDuration (settings c) * 60\<rparr>
         else
           let breakDuration =
                 (if isLongBreak c then longBreakDuration (settings c)
                  else shortBreakDuration (settings c))
           in s1\<lparr>timeLeft := breakDuration * 60\<rparr>)"

text \<open>
  \<open>completeSession\<close> takes the clock readings \<^verbatim>\<open>Date.now()\<close> and
  \<^verbatim>\<open>new Date().toISOString()\<close> as \<open>now\<close> and \<open>isoDate\<close>.
\<close>

definition completeSession :: "int \<Rightarrow> string \<Rightarrow> pomodoro \<Rightarrow> pomodoro \<Rightarrow> pomodoro" where
  "completeSession now isoDate c s =
     (let s1 = pauseTimer s;
          s2 = playNotificationSound s1;
          selectedTask = find (\<lambda>t. Some (task_id t) = selectedTaskId c) (tasks c);
          sessionDuration =
            (if isBreak c
             then (if isLongBreak c then longBreakDuration (settings c)
                   else shortBreakDuration (settings c))
             else workDuration (settings c));
          newSession =
            \<lparr>session_id = now,
             session_date = isoDate,
             session_type =
               (if isBreak c then (if isLongBreak c then Long_break else Short_break) else Focus),
             session_duration = sessionDuration,
             session_taskId =
               (case selectedTaskId c of
                  None \<Rightarrow> None
                | Some i \<Rightarrow> if i = [] then None else Some i),
             session_taskTitle =
               (case selectedTask of
                  Some t \<Rightarrow> task_title t
                | None \<Rightarrow> ''No task linked'')\<rparr>;
          updatedHistory = newSession # history c;
          s3 = s2\<lparr>history := updatedHistory, localStorage := Some updatedHistory\<rparr>;
          s4 =
            (if \<not> isBreak c then
               let newSessionCount = sessionCount c + 1;
                   s3' = s3\<lparr>sessionCount := newSessionCount\<rparr>
               in if js_rem_is_zero newSessionCount (longBreakInterval (settings c))
                  then s3'\<lparr>isLongBreak := True\<rparr>
                  else s3'
             else s3);
          s5 =
            s4\<lparr>effects := effects s4 @
                 [Alert
                    (if isBreak c then ''Break complete! Time to focus.''
                     else if isLongBreak c then ''Great! Long break complete.''
                     else ''Focus session complete! Take a break.'')]\<rparr>
      in switchSession c s5)"

definition selectPomodoro :: "pomodoro \<Rightarrow> pomodoro \<Rightarrow> pomodoro" where
  "selectPomodoro c s =
     (pauseTimer s)\<lparr>isBreak := False, isLongBreak := False,
                     timeLeft := workDuration (settings c) * 60\<rparr>"

definition selectShortBreak :: "pomodoro \<Rightarrow> pomodoro \<Rightarrow> pomodoro" where
  "selectShortBreak c s =
     (pauseTimer s)\<lparr>isBreak := True, isLongBreak := False,
                     timeLeft := shortBreakDuration (settings c) * 60\<rparr>"

definition selectLongBreak :: "pomodoro \<Rightarrow> pomodoro \<Rightarrow> pomodoro" where
  "selectLongBreak c s =
     (pauseTimer s)\<lparr>isBreak := True, isLongBreak := True,
                     timeLeft := longBreakDuration (settings c) * 60\<rparr>"

text \<open>The \<^verbatim>\<open>onClick\<close> handler of the Skip button.\<close>

definition skip :: "pomodoro \<Rightarrow> pomodoro \<Rightarrow> pomodoro" where
  "skip c s =
     (let s1 = pauseTimer s;
          wasBreak = isBreak c
      in if wasBreak
         then s1\<lparr>isLongBreak := False,
                 timeLeft := workDuration (settings c) * 60,
                 isBreak := False\<rparr>
         else
           let newSessionCount = sessionCount c + 1;
               isLongBreakNext =
                 js_rem_is_zero newSessionCount (longBreakInterval (settings c));
               breakDuration =
                 (if isLongBreakNext then longBreakDuration (settings c)
                  else shortBreakDuration (settings c))
           in s1\<lparr>timeLeft := breakDuration * 60,
                   isLongBreak := isLongBreakNext,
                   sessionCount := newSessionCount,
                   isBreak := True\<rparr>)"

text \<open>A handler of the current render, run on the current state.\<close>

definition click :: "(pomodoro \<Rightarrow> pomodoro \<Rightarrow> pomodoro) \<Rightarrow> pomodoro \<Rightarrow> pomodoro" where
  "click handler s = handler s s"


section \<open>Loading the persisted history\<close>

text \<open>
  A value \<^verbatim>\<open>JSON.parse\<close> returns. An object is the list of its properties in order;
  the number type is left open.
\<close>

datatype 'n json =
  JNull | JBool bool | JNum 'n | JStr string | JArr "'n json list"
  | JObj "(string \<times> 'n json) list"

text \<open>
  The function mapped over the parsed array:
  \<^verbatim>\<open>s => s.type === 'break' ? { ...s, type: 'short_break' } : s\<close>.
  The read \<^verbatim>\<open>s.type\<close> throws on \<^verbatim>\<open>null\<close> (\<open>None\<close>), is the property's value on an
  object, and is \<^verbatim>\<open>undefined\<close> on every other value. The spread copies the properties
  and the assignment replaces \<^verbatim>\<open>type\<close> where it stands.
\<close>

fun migrate :: "'n json \<Rightarrow> 'n json option" where
  "migrate JNull = None"
| "migrate (JObj props) =
     Some (if map_of props ''type'' = Some (JStr ''break'')
           then JObj (AList.update ''type'' (JStr ''short_break'') props)
           else JObj props)"
| "migrate v = Some v"

text \<open>\<^verbatim>\<open>parsed.map(...)\<close>: the first throw ends the whole map.\<close>

fun map_migrate :: "'n json list \<Rightarrow> 'n json list option" where
  "map_migrate [] = Some []"
| "map_migrate (x # xs) =
     (case migrate x of
        None \<Rightarrow> None
      | Some y \<Rightarrow> (case map_migrate xs of None \<Rightarrow> None | Some ys \<Rightarrow> Some (y # ys)))"

text \<open>
  What the page finds under \<^verbatim>\<open>pomodoroHistory\<close>: nothing (or the empty string), a text
  \<^verbatim>\<open>JSON.parse\<close> rejects, or a text it parses to a value.
\<close>

datatype 'n saved = Absent | Malformed | Parsed "'n json"

text \<open>
  The history after the load effect, from the history before it (empty at mount). A
  throw inside the \<^verbatim>\<open>try\<close> block is caught and \<^verbatim>\<open>setHistory\<close> is not called.
\<close>

definition loadHistory :: "'n saved \<Rightarrow> 'n json list \<Rightarrow> 'n json list" where
  "loadHistory savedHistory h =
     (case savedHistory of
        Absent \<Rightarrow> h
      | Malformed \<Rightarrow> h
      | Parsed parsed \<Rightarrow>
          (case parsed of
             JArr xs \<Rightarrow> (case map_migrate xs of None \<Rightarrow> h | Some migrated \<Rightarrow> migrated)
           | _ \<Rightarrow> []))"


section \<open>Example states\<close>

definition track_a :: audio_file where
  "track_a = \<lparr>fname = ''a.mp3'', blob = 1\<rparr>"

definition track_b :: audio_file where
  "track_b = \<lparr>fname = ''b.mp3'', blob = 2\<rparr>"

text \<open>Two files picked: the first is prepared, nothing plays.\<close>

definition two_tracks_loaded :: player where
  "two_tracks_loaded = loadPlaylist [track_a, track_b] initial_player"

text \<open>The same playlist after one \<^verbatim>\<open>nextSong\<close>: the last track is playing.\<close>

definition on_last_track :: player where
  "on_last_track = state_of (nextSong two_tracks_loaded)"


text \<open>A paused short break under the default settings, and settings that replace them.\<close>

definition short_break_idle :: pomodoro where
  "short_break_idle = initial_pomodoro\<lparr>isBreak := True, timeLeft := 5 * 60\<rparr>"

definition longer_settings :: pomodoroSettings where
  "longer_settings =
     \<lparr>workDuration = 30, shortBreakDuration = 10, longBreakDuration = 20, longBreakInterval = 4\<rparr>"

text \<open>
  The fourth focus session under the default settings (three are counted): before it is
  started, and running with one second left.
\<close>

definition fourth_focus_idle :: pomodoro where
  "fourth_focus_idle = initial_pomodoro\<lparr>sessionCount := 3\<rparr>"

definition fourth_focus_running :: pomodoro where
  "fourth_focus_running = (startTimer 1 fourth_focus_idle)\<lparr>timeLeft := 1\<rparr>"

text \<open>A persisted history with one legacy break record and one focus record.\<close>

definition legacy_history :: "int json list" where
  "legacy_history =
     [JObj [(''id'', JNum 1), (''type'', JStr ''break''), (''duration'', JNum 5)],
      JObj [(''id'', JNum 2), (''type'', JStr ''focus''), (''duration'', JNum 25)]]"


section \<open>Properties of the playback controller\<close>

lemma js_rem_nonneg: "0 \<le> a \<Longrightarrow> 0 < b \<Longrightarrow> js_rem a b = a mod b"
  by (simp add: js_rem_def smod_mod_positive)

lemma play_at_valid:
  "0 \<le> i \<Longrightarrow> i < int (length (playlist s)) \<Longrightarrow>
   play_at i s =
     Returned (s\<lparr>currentIndex := i, fileName := fname (playlist s ! nat i),
       audioRef :=
         map_option (\<lambda>a. a\<lparr>src := Some (playlist s ! nat i), paused := False\<rparr>) (audioRef s),
       isPlaying := True\<rparr>)"
  by (simp add: play_at_def js_index_def)

lemma nextSong_valid:
  assumes "playlist s \<noteq> []" "0 \<le> currentIndex s" "currentIndex s < int (length (playlist s))"
  shows "nextSong s = play_at ((currentIndex s + 1) mod int (length (playlist s))) s"
  using assms by (simp add: nextSong_def js_rem_nonneg)

lemma prevSong_valid:
  assumes "playlist s \<noteq> []" "0 \<le> currentIndex s" "currentIndex s < int (length (playlist s))"
  shows "prevSong s =
    play_at ((currentIndex s - 1 + int (length (playlist s))) mod int (length (playlist s))) s"
  using assms by (simp add: prevSong_def js_rem_nonneg)

lemma two_tracks_loaded_eq:
  "two_tracks_loaded =
     \<lparr>playlist = [track_a, track_b], currentIndex = 0, isPlaying = False,
      fileName = ''a.mp3'', audioRef = Some \<lparr>src = Some track_a, paused = True\<rparr>\<rparr>"
  by (simp add: two_tracks_loaded_def loadPlaylist_def initial_player_def track_a_def)

lemma on_last_track_eq:
  "on_last_track =
     \<lparr>playlist = [track_a, track_b], currentIndex = 1, isPlaying = True,
      fileName = ''b.mp3'', audioRef = Some \<lparr>src = Some track_b, paused = False\<rparr>\<rparr>"
  by (simp add: on_last_track_def two_tracks_loaded_eq nextSong_def play_at_def js_index_def
      js_rem_def signed_modulo_int_def track_b_def)

text \<open>
  C5. When the end-of-media event fires on the last track of a non-empty playlist,
  playback stops (\<open>isPlaying\<close> becomes false) and \<open>currentIndex\<close> stays; a manual
  \<open>nextSong\<close> in the same state wraps \<open>currentIndex\<close> to 0 and sets \<open>isPlaying\<close>; the
  two outcomes differ for every non-empty playlist. The event presupposes the audio
  element that fires it.
\<close>

theorem onEnd_last_stops_next_wraps:
  assumes "playlist s \<noteq> []"
    and "currentIndex s = int (length (playlist s)) - 1"
    and "audioRef s = Some a"
  shows "onEnd s = Returned (s\<lparr>isPlaying := False\<rparr>)
    \<and> returned (nextSong s)
    \<and> currentIndex (state_of (nextSong s)) = 0
    \<and> isPlaying (state_of (nextSong s)) = True
    \<and> playlist (state_of (nextSong s)) = playlist s
    \<and> onEnd s \<noteq> nextSong s"
proof -
  have n: "0 < int (length (playlist s))"
    using assms(1) by simp
  have e: "onEnd s = Returned (s\<lparr>isPlaying := False\<rparr>)"
    using assms by (simp add: onEnd_def)
  have "nextSong s = play_at 0 s"
    using assms n by (simp add: nextSong_def js_rem_nonneg)
  with n have nx: "nextSong s =
      Returned (s\<lparr>currentIndex := 0, fileName := fname (playlist s ! nat 0),
        audioRef :=
          map_option (\<lambda>a. a\<lparr>src := Some (playlist s ! nat 0), paused := False\<rparr>) (audioRef s),
        isPlaying := True\<rparr>)"
    by (simp add: play_at_valid)
  have "isPlaying (state_of (onEnd s)) \<noteq> isPlaying (state_of (nextSong s))"
    by (simp add: e nx)
  then have "onEnd s \<noteq> nextSong s"
    by auto
  then show ?thesis
    using e nx by simp
qed

theorem onEnd_last_stops_next_wraps_witness:
  "onEnd on_last_track = Returned (on_last_track\<lparr>isPlaying := False\<rparr>)
   \<and> currentIndex on_last_track = 1
   \<and> isPlaying on_last_track
   \<and> currentIndex (state_of (nextSong on_last_track)) = 0
   \<and> isPlaying (state_of (nextSong on_last_track))
   \<and> onEnd on_last_track \<noteq> nextSong on_last_track"
proof -
  have h1: "playlist on_last_track \<noteq> []"
    by (simp add: on_last_track_eq)
  have h2: "currentIndex on_last_track = int (length (playlist on_last_track)) - 1"
    by (simp add: on_last_track_eq)
  have h3: "audioRef on_last_track = Some \<lparr>src = Some track_b, paused = False\<rparr>"
    by (simp add: on_last_track_eq)
  have h4: "currentIndex on_last_track = 1 \<and> isPlaying on_last_track"
    by (simp add: on_last_track_eq)
  from onEnd_last_stops_next_wraps [OF h1 h2 h3] h4 show ?thesis
    by blast
qed

lemma next_times_index:
  assumes "playlist s \<noteq> []" "0 \<le> currentIndex s" "currentIndex s < int (length (playlist s))"
  shows "playlist (next_times k s) = playlist s
    \<and> currentIndex (next_times k s) = (currentIndex s + int k) mod int (length (playlist s))"
  using assms
proof (induction k arbitrary: s)
  case 0
  then show ?case by simp
next
  case (Suc k)
  let ?n = "int (length (playlist s))"
  let ?s1 = "state_of (nextSong s)"
  have n: "0 < ?n"
    using Suc.prems by simp
  have s1: "playlist ?s1 = playlist s" "currentIndex ?s1 = (currentIndex s + 1) mod ?n"
    using Suc.prems n by (simp_all add: nextSong_valid play_at_valid)
  have ih: "playlist (next_times k ?s1) = playlist ?s1
    \<and> currentIndex (next_times k ?s1) = (currentIndex ?s1 + int k) mod int (length (playlist ?s1))"
    using Suc.prems n by (intro Suc.IH) (simp_all add: s1)
  have p: "playlist (next_times (Suc k) s) = playlist s"
    using ih by (simp add: s1)
  have "currentIndex (next_times (Suc k) s) = ((currentIndex s + 1) mod ?n + int k) mod ?n"
    using ih by (simp add: s1)
  also have "\<dots> = (currentIndex s + 1 + int k) mod ?n"
    by (rule mod_add_left_eq)
  also have "currentIndex s + 1 + int k = currentIndex s + int (Suc k)"
    by simp
  finally show ?case
    using p by simp
qed

text \<open>
  C7. On a non-empty playlist of length \<open>n\<close> with a valid starting index, \<open>n\<close> calls of
  \<open>nextSong\<close> bring \<open>currentIndex\<close> back to where it started.
\<close>

theorem next_times_length_restores_index:
  assumes "playlist s \<noteq> []" "0 \<le> currentIndex s" "currentIndex s < int (length (playlist s))"
  shows "currentIndex (next_times (length (playlist s)) s) = currentIndex s"
  using next_times_index [OF assms, of "length (playlist s)"] assms by simp

theorem next_times_length_restores_index_witness:
  "length (playlist on_last_track) = 2
   \<and> currentIndex on_last_track = 1
   \<and> currentIndex (next_times 2 on_last_track) = 1"
proof -
  have h1: "playlist on_last_track \<noteq> []"
    by (simp add: on_last_track_eq)
  have h2: "0 \<le> currentIndex on_last_track"
    by (simp add: on_last_track_eq)
  have h3: "currentIndex on_last_track < int (length (playlist on_last_track))"
    by (simp add: on_last_track_eq)
  have h4: "length (playlist on_last_track) = 2 \<and> currentIndex on_last_track = 1"
    by (simp add: on_last_track_eq)
  from next_times_length_restores_index [OF h1 h2 h3] h4 show ?thesis
    by simp
qed

lemma valid_index_loadPlaylist: "valid_index s \<Longrightarrow> valid_index (loadPlaylist files s)"
  by (cases files) (simp_all add: valid_index_def loadPlaylist_def)

lemma valid_index_playCurrent: "valid_index s \<Longrightarrow> valid_index (playCurrent s)"
  by (simp add: valid_index_def playCurrent_def split: option.splits)

lemma valid_index_stopMusic: "valid_index s \<Longrightarrow> valid_index (stopMusic s)"
  by (simp add: valid_index_def stopMusic_def split: option.splits)

lemma valid_index_nextSong:
  assumes "valid_index s"
  shows "returned (nextSong s) \<and> valid_index (state_of (nextSong s))"
proof (cases "playlist s = []")
  case True
  then show ?thesis
    using assms by (simp add: nextSong_def)
next
  case False
  then have "0 \<le> currentIndex s" "currentIndex s < int (length (playlist s))"
    using assms by (simp_all add: valid_index_def)
  with False show ?thesis
    by (simp add: nextSong_valid play_at_valid valid_index_def)
qed

lemma valid_index_prevSong:
  assumes "valid_index s"
  shows "returned (prevSong s) \<and> valid_index (state_of (prevSong s))"
proof (cases "playlist s = []")
  case True
  then show ?thesis
    using assms by (simp add: prevSong_def)
next
  case False
  then have "0 \<le> currentIndex s" "currentIndex s < int (length (playlist s))"
    using assms by (simp_all add: valid_index_def)
  with False show ?thesis
    by (simp add: prevSong_valid play_at_valid valid_index_def)
qed

lemma valid_index_onEnd:
  assumes "valid_index s"
  shows "returned (onEnd s) \<and> valid_index (state_of (onEnd s))"
proof (cases "playlist s = []")
  case True
  then show ?thesis
    using assms by (simp add: onEnd_def split: option.splits)
next
  case False
  then have "0 \<le> currentIndex s" "currentIndex s < int (length (playlist s))"
    using assms by (simp_all add: valid_index_def)
  with False show ?thesis
    by (simp add: onEnd_def Let_def play_at_valid valid_index_def split: option.splits)
qed

text \<open>
  C8. Every playback operation (load, play, pause, resume, stop, next, previous and the
  automatic advance) keeps \<open>currentIndex\<close> a valid index whenever the playlist is
  non-empty, and none of them throws from such a state; \<open>nextSong\<close> and \<open>prevSong\<close>
  move the index to \<open>(i + 1) mod n\<close> and \<open>(i - 1 + n) mod n\<close>.
\<close>

theorem step_preserves_valid_index:
  assumes "valid_index s"
  shows "returned (step opn s) \<and> valid_index (state_of (step opn s))
    \<and> (if playlist s = [] then True
        else currentIndex (state_of (step Next s)) =
               (currentIndex s + 1) mod int (length (playlist s))
           \<and> currentIndex (state_of (step Previous s)) =
               (currentIndex s - 1 + int (length (playlist s))) mod int (length (playlist s)))"
proof -
  have a: "returned (step opn s) \<and> valid_index (state_of (step opn s))"
  proof (cases opn)
    case (LoadPlaylist files)
    then show ?thesis
      using assms by (simp add: valid_index_loadPlaylist)
  next
    case PlayCurrent
    then show ?thesis
      using assms by (simp add: valid_index_playCurrent)
  next
    case Pause
    then show ?thesis
      using assms by (simp add: valid_index_def pauseMusic_def)
  next
    case Resume
    then show ?thesis
      using assms by (simp add: valid_index_def resumeMusic_def)
  next
    case Stop
    then show ?thesis
      using assms by (simp add: valid_index_stopMusic)
  next
    case Next
    then show ?thesis
      using assms by (simp add: valid_index_nextSong)
  next
    case Previous
    then show ?thesis
      using assms by (simp add: valid_index_prevSong)
  next
    case AutoAdvance
    then show ?thesis
      using assms by (simp add: valid_index_onEnd)
  qed
  have b: "currentIndex (state_of (step Next s)) =
               (currentIndex s + 1) mod int (length (playlist s))
           \<and> currentIndex (state_of (step Previous s)) =
               (currentIndex s - 1 + int (length (playlist s))) mod int (length (playlist s))"
    if "playlist s \<noteq> []"
  proof -
    from that have "0 \<le> currentIndex s" "currentIndex s < int (length (playlist s))"
      using assms by (simp_all add: valid_index_def)
    with that show ?thesis
      by (simp add: nextSong_valid prevSong_valid play_at_valid)
  qed
  show ?thesis
    using a b by simp
qed

theorem step_preserves_valid_index_witness:
  "valid_index two_tracks_loaded
   \<and> valid_index (state_of (step Previous two_tracks_loaded))
   \<and> currentIndex (state_of (step Previous two_tracks_loaded)) = 1
   \<and> currentIndex (state_of (step Next two_tracks_loaded)) = 1"
proof -
  have h: "valid_index two_tracks_loaded"
    by (simp add: valid_index_def two_tracks_loaded_eq)
  have p: "playlist two_tracks_loaded = [track_a, track_b] \<and> currentIndex two_tracks_loaded = 0"
    by (simp add: two_tracks_loaded_eq)
  from step_preserves_valid_index [OF h, of Previous] h p show ?thesis
    by simp
qed

text \<open>
  C3 as stated fails. With nothing loaded (the provider's initial state: empty playlist,
  empty source, not playing) \<open>resumeMusic\<close> sets \<open>isPlaying\<close>, so it is not a no-op.
\<close>

theorem resumeMusic_nothing_loaded_counterexample:
  "playlist initial_player = []
   \<and> map_option src (audioRef initial_player) = Some None
   \<and> isPlaying initial_player = False
   \<and> isPlaying (resumeMusic initial_player) = True
   \<and> resumeMusic initial_player \<noteq> initial_player"
proof -
  have "isPlaying (resumeMusic initial_player) \<noteq> isPlaying initial_player"
    by (simp add: resumeMusic_def initial_player_def)
  then have "resumeMusic initial_player \<noteq> initial_player"
    by auto
  then show ?thesis
    by (simp add: resumeMusic_def initial_player_def)
qed

lemma audio_paused_fix: "(a\<lparr>paused := b\<rparr> = a) = (paused a = b)" for a :: audio
  by (cases a) auto

lemma pauseMusic_fix:
  "(pauseMusic s = s) =
     (\<not> isPlaying s \<and> (case audioRef s of None \<Rightarrow> True | Some a \<Rightarrow> paused a))"
  by (cases s) (auto simp: pauseMusic_def audio_paused_fix split: option.splits)

lemma resumeMusic_fix:
  "(resumeMusic s = s) =
     (isPlaying s \<and> (case audioRef s of None \<Rightarrow> True | Some a \<Rightarrow> \<not> paused a))"
  by (cases s) (auto simp: resumeMusic_def audio_paused_fix split: option.splits)

text \<open>
  C3, amended. With nothing loaded, \<open>pauseMusic\<close> and \<open>resumeMusic\<close> leave the playlist,
  the index, the display name and the audio source as they are, and set \<open>isPlaying\<close>
  unconditionally: to false and to true. \<open>pauseMusic\<close> leaves the whole state unchanged
  exactly when playback was already stopped (not playing, element paused), and
  \<open>resumeMusic\<close> exactly when it was already playing.
\<close>

theorem pause_resume_nothing_loaded:
  assumes "playlist s = []"
  shows "playlist (pauseMusic s) = [] \<and> currentIndex (pauseMusic s) = currentIndex s
    \<and> fileName (pauseMusic s) = fileName s
    \<and> map_option src (audioRef (pauseMusic s)) = map_option src (audioRef s)
    \<and> isPlaying (pauseMusic s) = False
    \<and> (pauseMusic s = s) =
        (\<not> isPlaying s \<and> (case audioRef s of None \<Rightarrow> True | Some a \<Rightarrow> paused a))
    \<and> playlist (resumeMusic s) = [] \<and> currentIndex (resumeMusic s) = currentIndex s
    \<and> fileName (resumeMusic s) = fileName s
    \<and> map_option src (audioRef (resumeMusic s)) = map_option src (audioRef s)
    \<and> isPlaying (resumeMusic s) = True
    \<and> (resumeMusic s = s) =
        (isPlaying s \<and> (case audioRef s of None \<Rightarrow> True | Some a \<Rightarrow> \<not> paused a))"
proof -
  have p: "playlist (pauseMusic s) = [] \<and> currentIndex (pauseMusic s) = currentIndex s
    \<and> fileName (pauseMusic s) = fileName s
    \<and> map_option src (audioRef (pauseMusic s)) = map_option src (audioRef s)
    \<and> isPlaying (pauseMusic s) = False"
    using assms by (cases "audioRef s") (simp_all add: pauseMusic_def)
  have r: "playlist (resumeMusic s) = [] \<and> currentIndex (resumeMusic s) = currentIndex s
    \<and> fileName (resumeMusic s) = fileName s
    \<and> map_option src (audioRef (resumeMusic s)) = map_option src (audioRef s)
    \<and> isPlaying (resumeMusic s) = True"
    using assms by (cases "audioRef s") (simp_all add: resumeMusic_def)
  show ?thesis
    using p r pauseMusic_fix [of s] resumeMusic_fix [of s] by blast
qed

theorem pause_resume_nothing_loaded_witness:
  "playlist initial_player = []
   \<and> pauseMusic initial_player = initial_player
   \<and> isPlaying (resumeMusic initial_player) = True
   \<and> fileName (resumeMusic initial_player) = fileName initial_player"
proof -
  have h: "playlist initial_player = []"
    by (simp add: initial_player_def)
  have st: "\<not> isPlaying initial_player
      \<and> (case audioRef initial_player of None \<Rightarrow> True | Some a \<Rightarrow> paused a)"
    by (simp add: initial_player_def)
  from pause_resume_nothing_loaded [OF h] h st show ?thesis
    by blast
qed

text \<open>
  C6 as stated fails. After the playlist is loaded nothing plays; \<open>nextSong\<close> followed by
  \<open>prevSong\<close> comes back to the first track but leaves it playing.
\<close>

theorem prev_next_whole_state_counterexample:
  "state_of (prevSong (state_of (nextSong two_tracks_loaded))) \<noteq> two_tracks_loaded"
proof -
  have "isPlaying (state_of (prevSong (state_of (nextSong two_tracks_loaded)))) = True"
    by (simp add: two_tracks_loaded_eq nextSong_def prevSong_def play_at_def js_index_def
        js_rem_def signed_modulo_int_def)
  moreover have "isPlaying two_tracks_loaded = False"
    by (simp add: two_tracks_loaded_eq)
  ultimately show ?thesis
    by auto
qed

lemma mod_step_back:
  assumes "0 \<le> (i::int)" "i < n"
  shows "((i + 1) mod n - 1 + n) mod n = i" "((i - 1 + n) mod n + 1) mod n = i"
proof -
  have "((i + 1) mod n - 1 + n) mod n = ((i + 1) mod n + (n - 1)) mod n"
    by (simp add: algebra_simps)
  also have "\<dots> = (i + 1 + (n - 1)) mod n"
    by (rule mod_add_left_eq)
  also have "\<dots> = i"
    using assms by simp
  finally show "((i + 1) mod n - 1 + n) mod n = i" .
  have "((i - 1 + n) mod n + 1) mod n = (i - 1 + n + 1) mod n"
    by (rule mod_add_left_eq)
  also have "\<dots> = i"
    using assms by simp
  finally show "((i - 1 + n) mod n + 1) mod n = i" .
qed

lemma play_at_twice:
  assumes "0 \<le> j" "j < int (length (playlist s))" "0 \<le> i" "i < int (length (playlist s))"
  shows "play_at i (state_of (play_at j s)) =
    Returned (s\<lparr>currentIndex := i, fileName := fname (playlist s ! nat i),
      audioRef :=
        map_option (\<lambda>a. a\<lparr>src := Some (playlist s ! nat i), paused := False\<rparr>) (audioRef s),
      isPlaying := True\<rparr>)"
  using assms by (cases "audioRef s") (simp_all add: play_at_valid)

lemma prevSong_after_play_at:
  assumes "0 \<le> j" "j < int (length (playlist s))"
  shows "prevSong (state_of (play_at j s)) =
    play_at ((j - 1 + int (length (playlist s))) mod int (length (playlist s)))
      (state_of (play_at j s))"
proof -
  have "playlist (state_of (play_at j s)) = playlist s" "currentIndex (state_of (play_at j s)) = j"
    using assms by (simp_all add: play_at_valid)
  moreover have "playlist s \<noteq> []"
    using assms by auto
  ultimately show ?thesis
    using assms prevSong_valid [of "state_of (play_at j s)"] by simp
qed

lemma nextSong_after_play_at:
  assumes "0 \<le> j" "j < int (length (playlist s))"
  shows "nextSong (state_of (play_at j s)) =
    play_at ((j + 1) mod int (length (playlist s))) (state_of (play_at j s))"
proof -
  have "playlist (state_of (play_at j s)) = playlist s" "currentIndex (state_of (play_at j s)) = j"
    using assms by (simp_all add: play_at_valid)
  moreover have "playlist s \<noteq> []"
    using assms by auto
  ultimately show ?thesis
    using assms nextSong_valid [of "state_of (play_at j s)"] by simp
qed

text \<open>
  C6, amended. From every state with a valid index, \<open>prevSong\<close> after \<open>nextSong\<close> and
  \<open>nextSong\<close> after \<open>prevSong\<close> both return, agree with each other, and restore the
  playlist and \<open>currentIndex\<close>, but not the whole state: on a non-empty playlist the
  result is the starting state with \<open>isPlaying\<close> set, the display name set to the
  current track's name and the audio element playing the current track. On an empty
  playlist both are the identity.
\<close>

theorem prev_next_round_trip:
  assumes "valid_index s"
  shows "returned (nextSong s) \<and> returned (prevSong s)
    \<and> returned (prevSong (state_of (nextSong s))) \<and> returned (nextSong (state_of (prevSong s)))
    \<and> state_of (prevSong (state_of (nextSong s))) = state_of (nextSong (state_of (prevSong s)))
    \<and> state_of (prevSong (state_of (nextSong s))) =
        (if playlist s = [] then s
         else s\<lparr>fileName := fname (playlist s ! nat (currentIndex s)),
                audioRef :=
                  map_option
                    (\<lambda>a. a\<lparr>src := Some (playlist s ! nat (currentIndex s)), paused := False\<rparr>)
                    (audioRef s),
                isPlaying := True\<rparr>)"
proof (cases "playlist s = []")
  case True
  then show ?thesis
    by (simp add: nextSong_def prevSong_def)
next
  case False
  define n where "n = int (length (playlist s))"
  define i where "i = currentIndex s"
  define j where "j = (i + 1) mod n"
  define k where "k = (i - 1 + n) mod n"
  have i: "0 \<le> i" "i < n"
    using assms False by (simp_all add: valid_index_def n_def i_def)
  then have n: "0 < n"
    by simp
  have j: "0 \<le> j" "j < n" and k: "0 \<le> k" "k < n"
    using n by (simp_all add: j_def k_def)
  have bk: "(j - 1 + n) mod n = i" "(k + 1) mod n = i"
    using mod_step_back [OF i] by (simp_all only: j_def k_def)
  have i': "0 \<le> currentIndex s" "currentIndex s < int (length (playlist s))"
    using i by (simp_all add: n_def i_def)
  have j': "0 \<le> j" "j < int (length (playlist s))"
    and k': "0 \<le> k" "k < int (length (playlist s))"
    using j k by (simp_all add: n_def)
  have nx: "nextSong s = play_at j s"
    unfolding j_def i_def n_def by (rule nextSong_valid [OF False i'])
  have pv: "prevSong s = play_at k s"
    unfolding k_def i_def n_def by (rule prevSong_valid [OF False i'])
  have pn: "prevSong (state_of (play_at j s)) = play_at i (state_of (play_at j s))"
    using prevSong_after_play_at [OF j'] bk(1) by (simp add: n_def)
  have np: "nextSong (state_of (play_at k s)) = play_at i (state_of (play_at k s))"
    using nextSong_after_play_at [OF k'] bk(2) by (simp add: n_def)
  have a: "play_at i (state_of (play_at j s)) = play_at i (state_of (play_at k s))"
    using i' j' k' by (simp add: i_def play_at_twice)
  have b: "state_of (play_at i (state_of (play_at j s))) =
      s\<lparr>fileName := fname (playlist s ! nat (currentIndex s)),
        audioRef :=
          map_option
            (\<lambda>a. a\<lparr>src := Some (playlist s ! nat (currentIndex s)), paused := False\<rparr>)
            (audioRef s),
        isPlaying := True\<rparr>"
    using i j play_at_twice [of j s i] by (simp add: n_def i_def)
  have r: "returned (play_at j s)" "returned (play_at k s)"
    "returned (play_at i (state_of (play_at j s)))"
    using i j k play_at_twice [of j s i] by (simp_all add: play_at_valid n_def)
  show ?thesis
    using False r b by (simp add: nx pv pn np a [symmetric])
qed

theorem prev_next_round_trip_witness:
  "valid_index two_tracks_loaded
   \<and> state_of (prevSong (state_of (nextSong two_tracks_loaded))) =
       two_tracks_loaded
         \<lparr>audioRef := Some \<lparr>src = Some track_a, paused = False\<rparr>, isPlaying := True\<rparr>
   \<and> state_of (nextSong (state_of (prevSong two_tracks_loaded))) =
       two_tracks_loaded
         \<lparr>audioRef := Some \<lparr>src = Some track_a, paused = False\<rparr>, isPlaying := True\<rparr>"
proof -
  let ?T = two_tracks_loaded
  have h: "valid_index ?T"
    by (simp add: valid_index_def two_tracks_loaded_eq)
  have v: "playlist ?T \<noteq> []"
    by (simp add: two_tracks_loaded_eq)
  have e: "?T\<lparr>fileName := fname (playlist ?T ! nat (currentIndex ?T)),
              audioRef :=
                map_option
                  (\<lambda>a. a\<lparr>src := Some (playlist ?T ! nat (currentIndex ?T)), paused := False\<rparr>)
                  (audioRef ?T),
              isPlaying := True\<rparr> =
           ?T\<lparr>audioRef := Some \<lparr>src = Some track_a, paused = False\<rparr>, isPlaying := True\<rparr>"
    by (simp add: two_tracks_loaded_eq track_a_def)
  from prev_next_round_trip [OF h]
  have t1: "state_of (prevSong (state_of (nextSong ?T))) =
      state_of (nextSong (state_of (prevSong ?T)))"
    and t2: "state_of (prevSong (state_of (nextSong ?T))) =
      (if playlist ?T = [] then ?T
       else ?T\<lparr>fileName := fname (playlist ?T ! nat (currentIndex ?T)),
              audioRef :=
                map_option
                  (\<lambda>a. a\<lparr>src := Some (playlist ?T ! nat (currentIndex ?T)), paused := False\<rparr>)
                  (audioRef ?T),
              isPlaying := True\<rparr>)"
    by blast+
  from t2 have t3: "state_of (prevSong (state_of (nextSong ?T))) =
      ?T\<lparr>audioRef := Some \<lparr>src = Some track_a, paused = False\<rparr>, isPlaying := True\<rparr>"
    by (simp only: v if_False e)
  from t1 t3 h show ?thesis
    by metis
qed


section \<open>Properties of the Pomodoro session controller\<close>

lemma js_rem_is_zero_mod: "b \<noteq> 0 \<Longrightarrow> js_rem_is_zero a b = (a mod b = 0)"
  by (auto simp: js_rem_is_zero_def js_rem_def signed_modulo_int_def sgn_if mod_eq_0_iff_dvd
      simp flip: dvd_eq_mod_eq_0)

lemma short_break_idle_eq:
  "short_break_idle =
     \<lparr>timeLeft = 300, isRunning = False, isBreak = True, isLongBreak = False,
      selectedTaskId = None, tasks = [], history = [], sessionCount = 0,
      settings = default_settings, timerRef = None, audioContextRef = True,
      localStorage = None, effects = []\<rparr>"
  by (simp add: short_break_idle_def initial_pomodoro_def)

lemma fourth_focus_idle_eq:
  "fourth_focus_idle =
     \<lparr>timeLeft = 1500, isRunning = False, isBreak = False, isLongBreak = False,
      selectedTaskId = None, tasks = [], history = [], sessionCount = 3,
      settings = default_settings, timerRef = None, audioContextRef = True,
      localStorage = None, effects = []\<rparr>"
  by (simp add: fourth_focus_idle_def initial_pomodoro_def)

lemma fourth_focus_running_eq:
  "fourth_focus_running =
     \<lparr>timeLeft = 1, isRunning = True, isBreak = False, isLongBreak = False,
      selectedTaskId = None, tasks = [], history = [], sessionCount = 3,
      settings = default_settings, timerRef = Some 1, audioContextRef = True,
      localStorage = None, effects = [SetInterval 1]\<rparr>"
  by (simp add: fourth_focus_running_def fourth_focus_idle_eq startTimer_def)

text \<open>
  In every idle state a settings update loads the work duration, whatever the mode, and
  both update paths agree.
\<close>

lemma settings_update_loads_work:
  "\<not> isRunning s \<Longrightarrow>
   timeLeft (handleSettingsChange d s) = workDuration d * 60
   \<and> mode (handleSettingsChange d s) = mode s
   \<and> settings (handleSettingsChange d s) = d
   \<and> fetchSettings (Some d) s = handleSettingsChange d s"
  by (simp add: handleSettingsChange_def fetchSettings_def mode_def)

text \<open>
  C1, at a state where the code departs from it. The timer is paused in a short break
  when new settings arrive (work 30, short break 10 minutes). Both update paths install
  the settings and keep the mode, but load 1800 seconds, the new work duration; the
  short break's new duration is 600 seconds.
\<close>

theorem settings_change_in_break_loads_work_duration:
  "mode short_break_idle = Short_break
   \<and> isRunning short_break_idle = False
   \<and> mode (handleSettingsChange longer_settings short_break_idle) = Short_break
   \<and> settings (handleSettingsChange longer_settings short_break_idle) = longer_settings
   \<and> timeLeft (handleSettingsChange longer_settings short_break_idle) = 1800
   \<and> fetchSettings (Some longer_settings) short_break_idle =
       handleSettingsChange longer_settings short_break_idle
   \<and> mode_seconds longer_settings Short_break = 600"
  by (simp add: short_break_idle_eq longer_settings_def mode_def
      handleSettingsChange_def fetchSettings_def mode_seconds_def)

text \<open>
  A completed focus session always loads the break duration chosen by the flag
  \<open>isLongBreak\<close> of the render the handler closes over, not by the flag it has just set.
\<close>

lemma completeSession_focus_timeLeft:
  "\<not> isBreak c \<Longrightarrow>
   timeLeft (completeSession now isoDate c s) =
     (if isLongBreak c then longBreakDuration (settings c) else shortBreakDuration (settings c)) * 60
   \<and> isBreak (completeSession now isoDate c s) = True
   \<and> isRunning (completeSession now isoDate c s) = False"
  by (cases "timerRef s")
    (simp_all add: completeSession_def switchSession_def pauseTimer_def
      playNotificationSound_def Let_def)

text \<open>
  C2, at a state where the code departs from it. Under the default settings (interval 4,
  short break 5, long break 15 minutes) the fourth focus session completes, whether the
  handler is the current render's or the one the interval captured when the timer was
  started. The count becomes 4, the mode becomes long break and the timer is paused, but
  300 seconds are loaded, the short break's duration; the long break's is 900 seconds.
\<close>

theorem completeSession_long_break_loads_short_duration:
  "mode fourth_focus_running = Focus
   \<and> sessionCount fourth_focus_running = 3
   \<and> longBreakInterval (settings fourth_focus_running) = 4
   \<and> sessionCount (click (completeSession 0 []) fourth_focus_running) = 4
   \<and> mode (click (completeSession 0 []) fourth_focus_running) = Long_break
   \<and> isRunning (click (completeSession 0 []) fourth_focus_running) = False
   \<and> timeLeft (click (completeSession 0 []) fourth_focus_running) = 300
   \<and> mode (completeSession 0 [] fourth_focus_idle fourth_focus_running) = Long_break
   \<and> timeLeft (completeSession 0 [] fourth_focus_idle fourth_focus_running) = 300
   \<and> mode_seconds (settings (click (completeSession 0 []) fourth_focus_running)) Long_break = 900"
  by (simp add: fourth_focus_running_eq fourth_focus_idle_eq click_def completeSession_def
      switchSession_def pauseTimer_def playNotificationSound_def default_settings_def mode_def
      mode_seconds_def js_rem_is_zero_def js_rem_def signed_modulo_int_def Let_def)

text \<open>
  C4. Skipping a running focus session (with a non-zero long-break interval) pauses the
  timer, leaves the history and its stored copy as they are, and adds no effect but the
  clearing of the interval, so no tone is played. The break it enters is long exactly
  when \<open>(sessionCount + 1) mod longBreakInterval = 0\<close>, and the duration loaded is the
  one of the break entered.
\<close>

theorem skip_running_focus:
  assumes "isRunning s" and "\<not> isBreak s" and "longBreakInterval (settings s) \<noteq> 0"
  shows "isRunning (click skip s) = False
    \<and> history (click skip s) = history s
    \<and> localStorage (click skip s) = localStorage s
    \<and> effects (click skip s) =
        effects s @ (case timerRef s of None \<Rightarrow> [] | Some h \<Rightarrow> [ClearInterval h])
    \<and> Tone \<notin> set (drop (length (effects s)) (effects (click skip s)))
    \<and> isBreak (click skip s) = True
    \<and> isLongBreak (click skip s) =
        ((sessionCount s + 1) mod longBreakInterval (settings s) = 0)
    \<and> timeLeft (click skip s) =
        (if (sessionCount s + 1) mod longBreakInterval (settings s) = 0
         then longBreakDuration (settings s) * 60
         else shortBreakDuration (settings s) * 60)
    \<and> timeLeft (click skip s) = mode_seconds (settings (click skip s)) (mode (click skip s))"
  using assms
  by (cases "timerRef s")
    (simp_all add: click_def skip_def pauseTimer_def Let_def js_rem_is_zero_mod mode_def
      mode_seconds_def)

theorem skip_running_focus_witness:
  "isRunning fourth_focus_running
   \<and> mode fourth_focus_running = Focus
   \<and> isRunning (click skip fourth_focus_running) = False
   \<and> history (click skip fourth_focus_running) = []
   \<and> effects (click skip fourth_focus_running) = [SetInterval 1, ClearInterval 1]
   \<and> isLongBreak (click skip fourth_focus_running) = True
   \<and> timeLeft (click skip fourth_focus_running) = 900"
proof -
  have h1: "isRunning fourth_focus_running"
    and h2: "\<not> isBreak fourth_focus_running"
    and h3: "longBreakInterval (settings fourth_focus_running) \<noteq> 0"
    by (simp_all add: fourth_focus_running_eq default_settings_def)
  have v: "mode fourth_focus_running = Focus
      \<and> history fourth_focus_running = []
      \<and> effects fourth_focus_running = [SetInterval 1]
      \<and> timerRef fourth_focus_running = Some 1
      \<and> sessionCount fourth_focus_running = 3
      \<and> settings fourth_focus_running = default_settings"
    by (simp add: fourth_focus_running_eq mode_def)
  from skip_running_focus [OF h1 h2 h3] h1 v show ?thesis
    by (simp add: default_settings_def)
qed

text \<open>
  C10. Skipping a running focus session raises \<open>sessionCount\<close> by exactly one, as
  completing it does, although only completion adds a history record; the skipped
  session therefore counts toward the long-break interval.
\<close>

theorem skip_counts_like_completion:
  assumes "isRunning s" and "\<not> isBreak s"
  shows "sessionCount (click skip s) = sessionCount s + 1
    \<and> sessionCount (click (completeSession now isoDate) s) = sessionCount s + 1
    \<and> history (click skip s) = history s
    \<and> length (history (click (completeSession now isoDate) s)) = length (history s) + 1
    \<and> isLongBreak (click skip s) =
        js_rem_is_zero (sessionCount s + 1) (longBreakInterval (settings s))"
  using assms
  by (cases "timerRef s")
    (simp_all add: click_def skip_def completeSession_def switchSession_def pauseTimer_def
      playNotificationSound_def Let_def)

theorem skip_counts_like_completion_witness:
  "isRunning fourth_focus_running
   \<and> mode fourth_focus_running = Focus
   \<and> sessionCount (click skip fourth_focus_running) = 4
   \<and> sessionCount (click (completeSession 0 []) fourth_focus_running) = 4
   \<and> history (click skip fourth_focus_running) = []"
proof -
  have h1: "isRunning fourth_focus_running"
    and h2: "\<not> isBreak fourth_focus_running"
    by (simp_all add: fourth_focus_running_eq)
  have v: "mode fourth_focus_running = Focus
      \<and> history fourth_focus_running = []
      \<and> sessionCount fourth_focus_running = 3"
    by (simp add: fourth_focus_running_eq mode_def)
  from skip_counts_like_completion [OF h1 h2, of 0 "[]"] h1 v show ?thesis
    by simp
qed


section \<open>Properties of the history load\<close>

lemma map_migrate_length: "map_migrate xs = Some ys \<Longrightarrow> length ys = length xs"
  by (induction xs arbitrary: ys) (auto split: option.splits)

lemma map_migrate_no_null: "JNull \<notin> set xs \<Longrightarrow> \<exists>ys. map_migrate xs = Some ys"
proof (induction xs)
  case Nil
  then show ?case
    by simp
next
  case (Cons x xs)
  then obtain ys where "map_migrate xs = Some ys"
    by auto
  moreover from Cons.prems have "x \<noteq> JNull"
    by auto
  then obtain y where "migrate x = Some y"
    by (cases x) auto
  ultimately show ?case
    by simp
qed

lemma map_migrate_nth:
  "map_migrate xs = Some ys \<Longrightarrow> i < length xs \<Longrightarrow> migrate (xs ! i) = Some (ys ! i)"
proof (induction xs arbitrary: ys i)
  case Nil
  then show ?case
    by simp
next
  case (Cons x xs)
  then show ?case
    by (cases i) (auto split: option.splits)
qed

text \<open>A \<^verbatim>\<open>null\<close> entry makes the map throw: the load is abandoned.\<close>

lemma map_migrate_null: "JNull \<in> set xs \<Longrightarrow> map_migrate xs = None"
  by (induction xs) (auto split: option.splits)

lemma update_type_props:
  assumes "map_of props ''type'' = Some v"
  shows "map_of (AList.update ''type'' w props) ''type'' = Some w
    \<and> map fst (AList.update ''type'' w props) = map fst props
    \<and> (\<forall>k. if k = ''type'' then True
            else map_of (AList.update ''type'' w props) k = map_of props k)"
proof -
  from assms have "''type'' \<in> fst ` set props"
    by (metis domI dom_map_of_conv_image_fst)
  then show ?thesis
    by (simp add: update_keys update_conv')
qed

lemma migrate_entry:
  assumes "migrate x = Some y"
  shows "case x of
         JObj props \<Rightarrow>
           if map_of props ''type'' = Some (JStr ''break'')
           then (\<exists>props'. y = JObj props'
                  \<and> map_of props' ''type'' = Some (JStr ''short_break'')
                  \<and> map fst props' = map fst props
                  \<and> (\<forall>k. if k = ''type'' then True else map_of props' k = map_of props k))
           else y = x
       | _ \<Rightarrow> y = x"
proof (cases x)
  case (JObj props)
  show ?thesis
  proof (cases "map_of props ''type'' = Some (JStr ''break'')")
    case True
    with assms JObj have "y = JObj (AList.update ''type'' (JStr ''short_break'') props)"
      by simp
    with update_type_props [OF True, of "JStr ''short_break''"] JObj True show ?thesis
      by simp
  next
    case False
    with assms JObj show ?thesis
      by auto
  qed
qed (use assms in auto)

text \<open>
  C9. Loading a persisted array without \<^verbatim>\<open>null\<close> entries keeps its length and order.
  An entry that is a record whose \<^verbatim>\<open>type\<close> is \<^verbatim>\<open>"break"\<close> is loaded as a record with
  the same fields in the same order, \<^verbatim>\<open>type\<close> being \<^verbatim>\<open>"short_break"\<close> and every other
  field having the value it had; every other entry is loaded unchanged.
\<close>

theorem loadHistory_migrates_break:
  assumes "JNull \<notin> set xs" and "i < length xs"
  shows "length (loadHistory (Parsed (JArr xs)) h) = length xs
    \<and> (case xs ! i of
         JObj props \<Rightarrow>
           if map_of props ''type'' = Some (JStr ''break'')
           then (\<exists>props'. loadHistory (Parsed (JArr xs)) h ! i = JObj props'
                  \<and> map_of props' ''type'' = Some (JStr ''short_break'')
                  \<and> map fst props' = map fst props
                  \<and> (\<forall>k. if k = ''type'' then True else map_of props' k = map_of props k))
           else loadHistory (Parsed (JArr xs)) h ! i = xs ! i
       | _ \<Rightarrow> loadHistory (Parsed (JArr xs)) h ! i = xs ! i)"
proof -
  from assms(1) obtain ys where ys: "map_migrate xs = Some ys"
    using map_migrate_no_null by blast
  then have l: "loadHistory (Parsed (JArr xs)) h = ys"
    by (simp add: loadHistory_def)
  have len: "length ys = length xs"
    using ys by (rule map_migrate_length)
  have m: "migrate (xs ! i) = Some (ys ! i)"
    using ys assms(2) by (rule map_migrate_nth)
  show ?thesis
    unfolding l using len migrate_entry [OF m] by blast
qed

theorem loadHistory_migrates_break_witness:
  "JNull \<notin> set legacy_history
   \<and> length (loadHistory (Parsed (JArr legacy_history)) []) = 2
   \<and> (\<exists>props'. loadHistory (Parsed (JArr legacy_history)) [] ! 0 = JObj props'
        \<and> map_of props' ''type'' = Some (JStr ''short_break'')
        \<and> map fst props' = [''id'', ''type'', ''duration'']
        \<and> map_of props' ''id'' = Some (JNum 1)
        \<and> map_of props' ''duration'' = Some (JNum 5))
   \<and> loadHistory (Parsed (JArr legacy_history)) [] ! 1 = legacy_history ! 1"
proof -
  have h1: "JNull \<notin> set legacy_history"
    by (simp add: legacy_history_def)
  have h2: "0 < length legacy_history" and h3: "1 < length legacy_history"
    by (simp_all add: legacy_history_def)
  have a: "length (loadHistory (Parsed (JArr legacy_history)) []) = 2"
    using loadHistory_migrates_break [OF h1 h2, of "[]"] by (simp add: legacy_history_def)
  have "\<exists>props'. loadHistory (Parsed (JArr legacy_history)) [] ! 0 = JObj props'
        \<and> map_of props' ''type'' = Some (JStr ''short_break'')
        \<and> map fst props' = [''id'', ''type'', ''duration'']
        \<and> (\<forall>k. if k = ''type'' then True
                else map_of props' k =
                  map_of [(''id'', JNum 1), (''type'', JStr ''break''), (''duration'', JNum 5)] k)"
    using loadHistory_migrates_break [OF h1 h2, of "[]"] by (simp add: legacy_history_def)
  then obtain props' where p: "loadHistory (Parsed (JArr legacy_history)) [] ! 0 = JObj props'"
    "map_of props' ''type'' = Some (JStr ''short_break'')"
    "map fst props' = [''id'', ''type'', ''duration'']"
    and q: "\<forall>k. if k = ''type'' then True
                else map_of props' k =
                  map_of [(''id'', JNum 1), (''type'', JStr ''break''), (''duration'', JNum 5)] k"
    by (elim exE conjE)
  from q [rule_format, of "''id''"] have q1: "map_of props' ''id'' = Some (JNum 1)"
    by simp
  from q [rule_format, of "''duration''"] have q2: "map_of props' ''duration'' = Some (JNum 5)"
    by simp
  have b: "loadHistory (Parsed (JArr legacy_history)) [] ! 1 = legacy_history ! 1"
    using loadHistory_migrates_break [OF h1 h3, of "[]"] by (simp add: legacy_history_def)
  have c: "\<exists>props'. loadHistory (Parsed (JArr legacy_history)) [] ! 0 = JObj props'
        \<and> map_of props' ''type'' = Some (JStr ''short_break'')
        \<and> map fst props' = [''id'', ''type'', ''duration'']
        \<and> map_of props' ''id'' = Some (JNum 1)
        \<and> map_of props' ''duration'' = Some (JNum 5)"
    using p q1 q2 by (intro exI [of _ props'] conjI)
  show ?thesis
    using h1 a c b by (intro conjI)
qed

end
